theory Spec2Isabelle
  imports Main
begin

section \<open>The tags input component (tagsInput.tsx)\<close>

text \<open>
  The component \<open>TagsInput\<close> keeps an ordered list of tags, a cursor into a colour
  palette, the tag picked for editing and the flag of the editor modal. Each handler
  of the class is embedded as a function from the state before the call to the state
  after it, together with the callbacks of the properties it invokes (in order).
  Handlers run one at a time: inside a handler \<open>this.state\<close> and the \<open>prevState\<close>
  handed to a \<open>setState\<close> updater are the same state, and the callback given to
  \<open>setState\<close> runs once the new state is committed.
\<close>

subsection \<open>Data\<close>

text \<open>
  A colour is a string or JavaScript's \<open>undefined\<close> (\<open>None\<close>): reading the palette
  outside its bounds gives \<open>undefined\<close>, which then travels with the tag.
\<close>

record ITag =
  name :: string
  color :: "string option"

text \<open>
  The field \<open>text\<close> of \<open>IReactTag\<close> has type \<open>any\<close>. The input widget hands over the
  typed characters; the component replaces them by the markup that \<open>ReactTagHtml\<close>
  builds from the name and the colour of the tag.
\<close>

datatype markup = Typed string | ReactTagHtml string "string option"

record IReactTag =
  tag_id :: string
  tag_text :: markup
  tag_color :: "string option"

text \<open>
  The property \<open>tags\<close> is an array or null. Arrays are objects: \<open>!==\<close> compares
  their identity, which the model carries as a number beside the elements.
\<close>

datatype tags_value = Null | Array nat "ITag list"

record ITagsInputProps =
  props_tags :: tags_value
  has_onTagClick :: bool
  has_onTagShiftClick :: bool

text \<open>
  \<open>currentTagColorIndex\<close> is a JavaScript number; \<open>None\<close> stands for \<open>NaN\<close>, the
  value of \<open>x % 0\<close>.
\<close>

record ITagsInputState =
  tags :: "IReactTag list"
  currentTagColorIndex :: "nat option"
  selectedTag :: "IReactTag option"
  showModal :: bool

text \<open>The calls a handler makes on the callbacks of the properties.\<close>

datatype callback =
    onChange "ITag list"
  | onTagClick "ITag option"
  | onTagShiftClick "ITag option"

datatype error = Error string | TypeError

definition KeyCodes_comma :: int where "KeyCodes_comma = 188"
definition KeyCodes_enter :: int where "KeyCodes_enter = 13"
definition KeyCodes_backspace :: int where "KeyCodes_backspace = 8"

definition delimiters :: "int list" where
  "delimiters = [KeyCodes_comma, KeyCodes_enter]"

text \<open>
  The event of a deletion: \<open>keyCode\<close> is a number for a key press and \<open>undefined\<close>
  (\<open>None\<close>) for a click on the remove button.
\<close>

record delete_event =
  keyCode :: "int option"

record click_event =
  currentTarget_innerText :: string
  target_innerText :: string
  ctrlKey :: bool
  shiftKey :: bool

subsection \<open>JavaScript primitives used by the handlers\<close>

text \<open>
  \<open>TagColors[i]\<close>: the palette \<open>tagColors.json\<close> is a parameter of the model (an
  array of strings); a read outside \<open>0 .. length - 1\<close> or at \<open>NaN\<close> is
  \<open>undefined\<close>.
\<close>

definition array_get :: "string list \<Rightarrow> nat option \<Rightarrow> string option" where
  "array_get xs i =
     (case i of None \<Rightarrow> None
      | Some n \<Rightarrow> if n < length xs then Some (xs ! n) else None)"

text \<open>\<open>(i + 1) % n\<close> on numbers: \<open>NaN\<close> when \<open>i\<close> is \<open>NaN\<close> or \<open>n\<close> is zero.\<close>

definition next_index :: "nat option \<Rightarrow> nat \<Rightarrow> nat option" where
  "next_index i n =
     (case i of None \<Rightarrow> None
      | Some k \<Rightarrow> if n = 0 then None else Some ((k + 1) mod n))"

text \<open>
  \<open>Array.prototype.splice(start, deleteCount, ...items)\<close>: a negative \<open>start\<close>
  counts from the end, both bounds are clamped to the array.
\<close>

definition splice :: "int \<Rightarrow> int \<Rightarrow> 'a list \<Rightarrow> 'a list \<Rightarrow> 'a list" where
  "splice start deleteCount items xs =
     (let len = int (length xs);
          actualStart = (if start < 0 then max (len + start) 0 else min start len);
          actualDeleteCount = min (max deleteCount 0) (len - actualStart)
      in take (nat actualStart) xs @ items
           @ drop (nat (actualStart + actualDeleteCount)) xs)"

text \<open>\<open>xs.filter((x, index) => index !== i)\<close>.\<close>

definition filter_index :: "int \<Rightarrow> 'a list \<Rightarrow> 'a list" where
  "filter_index i xs =
     map snd (filter (\<lambda>(index, x). int index \<noteq> i) (enumerate 0 xs))"

subsection \<open>Conversions\<close>

definition toReactTag_obj :: "ITag \<Rightarrow> IReactTag" where
  "toReactTag_obj tag =
     \<lparr>tag_id = name tag,
      tag_text = ReactTagHtml (name tag) (color tag),
      tag_color = color tag\<rparr>"

definition toReactTag :: "ITag option \<Rightarrow> IReactTag option" where
  "toReactTag tag = (case tag of None \<Rightarrow> None | Some t \<Rightarrow> Some (toReactTag_obj t))"

definition toItag_obj :: "IReactTag \<Rightarrow> ITag" where
  "toItag_obj tag = \<lparr>name = tag_id tag, color = tag_color tag\<rparr>"

definition toItag :: "IReactTag option \<Rightarrow> ITag option" where
  "toItag tag = (case tag of None \<Rightarrow> None | Some t \<Rightarrow> Some (toItag_obj t))"

definition addHtml :: "IReactTag \<Rightarrow> IReactTag" where
  "addHtml tag = tag\<lparr>tag_text := ReactTagHtml (tag_id tag) (tag_color tag)\<rparr>"

text \<open>
  The elements of both arrays are objects, so \<open>toReactTag\<close> and \<open>toItag\<close> take
  their second branch on each of them.
\<close>

definition toReactTags :: "tags_value \<Rightarrow> IReactTag list" where
  "toReactTags ts = (case ts of Null \<Rightarrow> [] | Array r elems \<Rightarrow> map toReactTag_obj elems)"

definition toITags :: "IReactTag list \<Rightarrow> ITag list" where
  "toITags ts = map toItag_obj ts"

subsection \<open>Construction and update of the properties\<close>

text \<open>
  \<open>r\<close> is the value of \<open>randomIntInRange(0, TagColors.length)\<close>, a helper of
  \<open>common/utils\<close>.
\<close>

definition constructor :: "ITagsInputProps \<Rightarrow> nat \<Rightarrow> ITagsInputState" where
  "constructor props r =
     \<lparr>tags = toReactTags (props_tags props),
      currentTagColorIndex = Some r,
      selectedTag = None,
      showModal = False\<rparr>"

fun strict_neq :: "tags_value \<Rightarrow> tags_value \<Rightarrow> bool" where
  "strict_neq Null Null = False"
| "strict_neq (Array a xs) (Array b ys) = (a \<noteq> b)"
| "strict_neq _ _ = True"

definition componentDidUpdate ::
  "ITagsInputProps \<Rightarrow> ITagsInputProps \<Rightarrow> ITagsInputState \<Rightarrow> ITagsInputState \<times> callback list"
where
  "componentDidUpdate prevProps props s =
     (if strict_neq (props_tags prevProps) (props_tags props)
      then (s\<lparr>tags := toReactTags (props_tags props)\<rparr>, [])
      else (s, []))"

subsection \<open>Helpers and handlers\<close>

definition getTag :: "ITagsInputState \<Rightarrow> string \<Rightarrow> error + IReactTag" where
  "getTag s ident =
     (case find (\<lambda>tag. tag_id tag = ident) (tags s) of
        None \<Rightarrow> Inl (Error (''No tag by id: '' @ ident))
      | Some match \<Rightarrow> Inr match)"

text \<open>
  \<open>event.currentTarget.innerText || event.target.innerText\<close>: the first string
  unless it is empty.
\<close>

definition innerText :: "click_event \<Rightarrow> string" where
  "innerText event =
     (if currentTarget_innerText event \<noteq> []
      then currentTarget_innerText event else target_innerText event)"

definition handleTagClick ::
  "ITagsInputProps \<Rightarrow> ITagsInputState \<Rightarrow> click_event \<Rightarrow> error + ITagsInputState \<times> callback list"
where
  "handleTagClick props s event =
     (let txt = innerText event
      in case getTag s txt of
           Inl e \<Rightarrow> Inl e
         | Inr tag \<Rightarrow>
             if ctrlKey event
             then Inr (s\<lparr>selectedTag := Some tag, showModal := True\<rparr>, [])
             else if shiftKey event \<and> has_onTagShiftClick props
             then Inr (s, [onTagShiftClick (toItag (Some tag))])
             else if has_onTagClick props
             then Inr (s, [onTagClick (toItag (Some tag))])
             else Inr (s, []))"

definition handleDrag ::
  "ITagsInputState \<Rightarrow> IReactTag \<Rightarrow> int \<Rightarrow> int \<Rightarrow> ITagsInputState \<times> callback list"
where
  "handleDrag s tag currPos newPos =
     (let newTags = splice newPos 0 [tag] (splice currPos 1 [] (tags s));
          s' = s\<lparr>tags := newTags\<rparr>
      in (s', [onChange (toITags (tags s'))]))"

definition handleCloseModal :: "ITagsInputState \<Rightarrow> ITagsInputState \<times> callback list" where
  "handleCloseModal s = (s\<lparr>showModal := False\<rparr>, [])"

definition handleAddition ::
  "string list \<Rightarrow> ITagsInputState \<Rightarrow> IReactTag \<Rightarrow> ITagsInputState \<times> callback list"
where
  "handleAddition TagColors s reactTag =
     (let coloured = reactTag\<lparr>tag_color := array_get TagColors (currentTagColorIndex s)\<rparr>;
          added = addHtml coloured;
          s' = s\<lparr>tags := tags s @ [added],
                 currentTagColorIndex :=
                   next_index (currentTagColorIndex s) (length TagColors)\<rparr>
      in (s', [onChange (toITags (tags s'))]))"

text \<open>
  \<open>newReactTag.id\<close> and \<open>this.state.selectedTag.id\<close> raise a TypeError on null,
  before any state is written.
\<close>

definition handleEditedTag ::
  "ITagsInputState \<Rightarrow> ITag option \<Rightarrow> error + ITagsInputState \<times> callback list"
where
  "handleEditedTag s newTag =
     (case toReactTag newTag of
        None \<Rightarrow> Inl TypeError
      | Some newReactTag \<Rightarrow>
          (case selectedTag s of
             None \<Rightarrow> Inl TypeError
           | Some sel \<Rightarrow>
               if tag_id newReactTag \<noteq> tag_id sel
                  \<and> list_ex (\<lambda>t. tag_id t = tag_id newReactTag) (tags s)
               then Inr (s, [])
               else
                 (let edited = addHtml newReactTag;
                      s' = s\<lparr>tags := map (\<lambda>reactTag.
                                   if tag_id reactTag = tag_id sel then edited else reactTag)
                                 (tags s),
                             showModal := False\<rparr>
                  in Inr (s', [onChange (toITags (tags s'))]))))"

definition handleDelete ::
  "ITagsInputState \<Rightarrow> int \<Rightarrow> delete_event \<Rightarrow> ITagsInputState \<times> callback list"
where
  "handleDelete s i event =
     (if keyCode event = Some KeyCodes_backspace then (s, [])
      else
        (let s' = s\<lparr>tags := filter_index i (tags s)\<rparr>
         in (s', [onChange (toITags (tags s'))])))"

subsection \<open>The component under a sequence of events\<close>

record component =
  props :: ITagsInputProps
  state :: ITagsInputState

datatype operation =
    Add IReactTag
  | Edit "ITag option"
  | Delete int delete_event
  | Drag IReactTag int int
  | Refresh ITagsInputProps
  | Click click_event
  | CloseModal

definition commit :: "component \<Rightarrow> ITagsInputState \<times> callback list \<Rightarrow> component \<times> callback list" where
  "commit this r = (this\<lparr>state := fst r\<rparr>, snd r)"

text \<open>
  An exception leaves the handler before \<open>setState\<close> is reached: the component is as
  it was and no callback has run.
\<close>

definition attempt ::
  "component \<Rightarrow> error + ITagsInputState \<times> callback list \<Rightarrow> component \<times> callback list"
where
  "attempt this r = (case r of Inl e \<Rightarrow> (this, []) | Inr r' \<Rightarrow> commit this r')"

text \<open>
  \<open>Refresh\<close> is the parent rendering the component with new properties:
  \<open>this.props\<close> is replaced and \<open>componentDidUpdate\<close> runs with the previous ones.
\<close>

fun step :: "string list \<Rightarrow> component \<Rightarrow> operation \<Rightarrow> component \<times> callback list" where
  "step TagColors this (Add reactTag) =
     commit this (handleAddition TagColors (state this) reactTag)"
| "step TagColors this (Edit newTag) =
     attempt this (handleEditedTag (state this) newTag)"
| "step TagColors this (Delete i event) =
     commit this (handleDelete (state this) i event)"
| "step TagColors this (Drag tag currPos newPos) =
     commit this (handleDrag (state this) tag currPos newPos)"
| "step TagColors this (Refresh newProps) =
     commit (this\<lparr>props := newProps\<rparr>)
       (componentDidUpdate (props this) newProps (state this))"
| "step TagColors this (Click event) =
     attempt this (handleTagClick (props this) (state this) event)"
| "step TagColors this CloseModal =
     commit this (handleCloseModal (state this))"

text \<open>The component after each event of a sequence, in order.\<close>

fun trace :: "string list \<Rightarrow> component \<Rightarrow> operation list \<Rightarrow> component list" where
  "trace TagColors this [] = []"
| "trace TagColors this (op # ops) =
     fst (step TagColors this op) # trace TagColors (fst (step TagColors this op)) ops"

definition names :: "ITagsInputState \<Rightarrow> string list" where
  "names s = map tag_id (tags s)"

text \<open>Successive additions, as the input widget makes them.\<close>

fun add_all :: "string list \<Rightarrow> ITagsInputState \<Rightarrow> IReactTag list \<Rightarrow> ITagsInputState" where
  "add_all TagColors s [] = s"
| "add_all TagColors s (reactTag # rest) =
     add_all TagColors (fst (handleAddition TagColors s reactTag)) rest"

subsection \<open>Vocabulary of the properties\<close>

text \<open>
  The list operations in whose terms deletion and reordering are described: dropping
  the element at a position, and putting an element in at a position.
\<close>

definition remove_at :: "nat \<Rightarrow> 'a list \<Rightarrow> 'a list" where
  "remove_at i xs = take i xs @ drop (Suc i) xs"

definition insert_at :: "nat \<Rightarrow> 'a \<Rightarrow> 'a list \<Rightarrow> 'a list" where
  "insert_at i x xs = take i xs @ x # drop i xs"

text \<open>The four operations of the user, as opposed to the events around them.\<close>

fun user_operation :: "operation \<Rightarrow> bool" where
  "user_operation (Add reactTag) = True"
| "user_operation (Edit newTag) = True"
| "user_operation (Delete i event) = True"
| "user_operation (Drag tag currPos newPos) = True"
| "user_operation other = False"

text \<open>
  The guards of the handlers: a deletion by backspace, and an edit whose new name is
  not the selected one and is already in the list (or that raises).
\<close>

fun declined :: "ITagsInputState \<Rightarrow> operation \<Rightarrow> bool" where
  "declined s (Delete i event) = (keyCode event = Some KeyCodes_backspace)"
| "declined s (Edit None) = True"
| "declined s (Edit (Some newTag)) =
     (case selectedTag s of
        None \<Rightarrow> True
      | Some sel \<Rightarrow> name newTag \<noteq> tag_id sel \<and> name newTag \<in> set (names s))"
| "declined s other = False"

text \<open>
  The selection: the tag under edit. \<open>render\<close> hands \<open>selectedTag\<close> and
  \<open>showModal\<close> to the editor, which shows the tag while the flag holds. A click with
  the control key sets both; committing an edit and cancelling reset the flag only, so
  a tag is selected exactly while the flag holds.
\<close>

definition selection :: "ITagsInputState \<Rightarrow> IReactTag option" where
  "selection s = (if showModal s then selectedTag s else None)"

text \<open>
  What the handlers leave to their callers: the name of an added tag is new, a dragged
  tag does not clash with the tags that stay, a list handed over by the parent has no
  name twice.
\<close>

fun elems :: "tags_value \<Rightarrow> ITag list" where
  "elems Null = []"
| "elems (Array r xs) = xs"

fun admissible :: "ITagsInputState \<Rightarrow> operation \<Rightarrow> bool" where
  "admissible s (Add reactTag) = (tag_id reactTag \<notin> set (names s))"
| "admissible s (Drag tag currPos newPos) =
     (tag_id tag \<notin> set (map tag_id (splice currPos 1 [] (tags s))))"
| "admissible s (Refresh newProps) = distinct (map name (elems (props_tags newProps)))"
| "admissible s other = True"

fun admissible_seq :: "string list \<Rightarrow> component \<Rightarrow> operation list \<Rightarrow> bool" where
  "admissible_seq TagColors this [] = True"
| "admissible_seq TagColors this (op # ops) =
     (admissible (state this) op
      \<and> admissible_seq TagColors (fst (step TagColors this op)) ops)"

subsection \<open>The scenario of the specification\<close>

text \<open>
  The palette, tags and events of the scenarios, used to run the handlers on concrete
  inputs.
\<close>

definition palette :: "string list" where
  "palette = [''red'', ''blue'', ''green'']"

definition tag_A :: IReactTag where
  "tag_A = \<lparr>tag_id = ''A'', tag_text = ReactTagHtml ''A'' (Some ''red''), tag_color = Some ''red''\<rparr>"

definition tag_B :: IReactTag where
  "tag_B = \<lparr>tag_id = ''B'', tag_text = ReactTagHtml ''B'' (Some ''blue''), tag_color = Some ''blue''\<rparr>"

definition typed :: "string \<Rightarrow> IReactTag" where
  "typed n = \<lparr>tag_id = n, tag_text = Typed n, tag_color = None\<rparr>"

definition by_click :: delete_event where
  "by_click = \<lparr>keyCode = None\<rparr>"

definition by_key :: "int \<Rightarrow> delete_event" where
  "by_key k = \<lparr>keyCode = Some k\<rparr>"

definition holding :: "IReactTag list \<Rightarrow> nat \<Rightarrow> IReactTag option \<Rightarrow> bool \<Rightarrow> ITagsInputState" where
  "holding ts c sel m =
     \<lparr>tags = ts, currentTagColorIndex = Some c, selectedTag = sel, showModal = m\<rparr>"

definition mounted :: "ITagsInputState \<Rightarrow> component" where
  "mounted s =
     \<lparr>props = \<lparr>props_tags = Null, has_onTagClick = False, has_onTagShiftClick = False\<rparr>,
      state = s\<rparr>"

section \<open>Auxiliary facts\<close>

lemma filter_enumerate_all:
  assumes "i < int n \<or> int n + int (length xs) \<le> i"
  shows "map snd (filter (\<lambda>(index, x). int index \<noteq> i) (enumerate n xs)) = xs"
proof -
  have "\<forall>p \<in> set (enumerate n xs). (\<lambda>(index, x). int index \<noteq> i) p"
    using assms by (auto simp: in_set_enumerate_eq)
  then have "filter (\<lambda>(index, x). int index \<noteq> i) (enumerate n xs) = enumerate n xs"
    by (simp only: filter_True)
  then show ?thesis by simp
qed

lemma filter_enumerate_at:
  assumes "n \<le> k" "k < n + length xs"
  shows "map snd (filter (\<lambda>(index, x). int index \<noteq> int k) (enumerate n xs)) =
           take (k - n) xs @ drop (Suc (k - n)) xs"
  using assms
proof (induction xs arbitrary: n)
  case Nil
  then show ?case by simp
next
  case (Cons x xs)
  show ?case
  proof (cases "k = n")
    case True
    have "map snd (filter (\<lambda>(index, x). int index \<noteq> int k) (enumerate (Suc n) xs)) = xs"
      by (rule filter_enumerate_all) (simp add: True)
    with True show ?thesis by simp
  next
    case False
    with Cons.prems have b: "Suc n \<le> k" "k < Suc n + length xs" by simp_all
    have step: "k - n = Suc (k - Suc n)" using b by simp
    have "map snd (filter (\<lambda>(index, x). int index \<noteq> int k) (enumerate (Suc n) xs)) =
            take (k - Suc n) xs @ drop (Suc (k - Suc n)) xs"
      using b by (rule Cons.IH)
    with False show ?thesis by (simp add: step)
  qed
qed

lemma filter_index_in_range:
  assumes "0 \<le> i" "i < int (length xs)"
  shows "filter_index i xs = remove_at (nat i) xs"
proof -
  have "map snd (filter (\<lambda>(index, x). int index \<noteq> int (nat i)) (enumerate 0 xs)) =
          take (nat i - 0) xs @ drop (Suc (nat i - 0)) xs"
    by (rule filter_enumerate_at) (use assms in simp_all)
  with assms(1) show ?thesis by (simp add: filter_index_def remove_at_def)
qed

lemma filter_index_out_of_range:
  assumes "i < 0 \<or> int (length xs) \<le> i"
  shows "filter_index i xs = xs"
  unfolding filter_index_def
  by (rule filter_enumerate_all) (use assms in simp)

lemma splice_remove_in_range:
  assumes "0 \<le> i" "i < int (length xs)"
  shows "splice i 1 [] xs = remove_at (nat i) xs"
proof -
  have a: "(if i < 0 then max (int (length xs) + i) 0 else min i (int (length xs))) = i"
    using assms by simp
  have d: "min (max 1 0) (int (length xs) - i) = 1"
    using assms by simp
  have n: "nat (i + 1) = Suc (nat i)"
    using assms by simp
  show ?thesis
    unfolding splice_def Let_def a d n remove_at_def by simp
qed

lemma splice_insert_in_range:
  assumes "0 \<le> i" "i \<le> int (length xs)"
  shows "splice i 0 [x] xs = insert_at (nat i) x xs"
proof -
  have a: "(if i < 0 then max (int (length xs) + i) 0 else min i (int (length xs))) = i"
    using assms by simp
  have d: "min (max 0 0) (int (length xs) - i) = 0"
    using assms by simp
  show ?thesis
    unfolding splice_def Let_def a d insert_at_def by simp
qed

lemma distinct_take_drop:
  "distinct xs \<Longrightarrow> a \<le> b \<Longrightarrow> distinct (take a xs @ drop b xs)"
  by (simp add: set_take_disj_set_drop_if_distinct)

lemma splice_shape:
  "\<exists>a b. a \<le> b \<and> splice i d items xs = take a xs @ items @ drop b xs"
proof -
  define a where "a = (if i < 0 then max (int (length xs) + i) 0 else min i (int (length xs)))"
  define c where "c = min (max d 0) (int (length xs) - a)"
  have "0 \<le> a" "a \<le> int (length xs)" by (auto simp: a_def)
  then have "0 \<le> c" by (simp add: c_def)
  then have "nat a \<le> nat (a + c)" by simp
  moreover have "splice i d items xs = take (nat a) xs @ items @ drop (nat (a + c)) xs"
    by (simp add: splice_def Let_def a_def c_def)
  ultimately show ?thesis by blast
qed

lemma distinct_map_splice_remove:
  assumes "distinct (map f xs)"
  shows "distinct (map f (splice i d [] xs))"
proof -
  obtain a b where ab: "a \<le> b" "splice i d [] xs = take a xs @ [] @ drop b xs"
    using splice_shape [of i d "[]" xs] by blast
  have "distinct (take a (map f xs) @ drop b (map f xs))"
    using assms ab(1) by (rule distinct_take_drop)
  then show ?thesis by (simp add: ab(2) take_map drop_map)
qed

lemma splice_insert_shape:
  "\<exists>a. splice i 0 [x] xs = take a xs @ x # drop a xs"
proof -
  define a where "a = (if i < 0 then max (int (length xs) + i) 0 else min i (int (length xs)))"
  have "0 \<le> a" "a \<le> int (length xs)" by (auto simp: a_def)
  then have "min (max 0 0) (int (length xs) - a) = 0" by simp
  then have "splice i 0 [x] xs = take (nat a) xs @ x # drop (nat a) xs"
    by (simp add: splice_def Let_def a_def [symmetric])
  then show ?thesis by blast
qed

lemma distinct_insert_anywhere:
  assumes "distinct ys" "y \<notin> set ys"
  shows "distinct (take a ys @ y # drop a ys)"
proof -
  have "set (take a ys) \<inter> set (drop a ys) = {}"
    using assms(1) by (rule set_take_disj_set_drop_if_distinct) simp
  moreover have "y \<notin> set (take a ys)" "y \<notin> set (drop a ys)"
    using assms(2) by (auto dest: in_set_takeD in_set_dropD)
  ultimately show ?thesis using assms(1) by auto
qed

lemma distinct_map_splice_insert:
  assumes "distinct (map f xs)" "f x \<notin> set (map f xs)"
  shows "distinct (map f (splice i 0 [x] xs))"
proof -
  obtain a where a: "splice i 0 [x] xs = take a xs @ x # drop a xs"
    using splice_insert_shape [of i x xs] by blast
  have "distinct (take a (map f xs) @ f x # drop a (map f xs))"
    using assms by (rule distinct_insert_anywhere)
  then show ?thesis by (simp add: a take_map drop_map)
qed

lemma distinct_map_filter_index:
  assumes "distinct (map f xs)"
  shows "distinct (map f (filter_index i xs))"
proof (cases "0 \<le> i \<and> i < int (length xs)")
  case True
  then have "filter_index i xs = take (nat i) xs @ drop (Suc (nat i)) xs"
    by (simp add: filter_index_in_range remove_at_def)
  moreover have "distinct (take (nat i) (map f xs) @ drop (Suc (nat i)) (map f xs))"
    using assms by (rule distinct_take_drop) simp
  ultimately show ?thesis by (simp add: take_map drop_map)
next
  case False
  then have "filter_index i xs = xs" by (intro filter_index_out_of_range) linarith
  with assms show ?thesis by simp
qed

lemma map_replace_same_key:
  "f y = k \<Longrightarrow> map f (map (\<lambda>x. if f x = k then y else x) xs) = map f xs"
  by (induction xs) simp_all

lemma distinct_map_replace_fresh:
  "distinct (map f xs) \<Longrightarrow> f y \<notin> set (map f xs) \<Longrightarrow>
     distinct (map f (map (\<lambda>x. if f x = k then y else x) xs))"
proof (induction xs)
  case Nil
  then show ?case by simp
next
  case (Cons x xs)
  then have IH: "distinct (map f (map (\<lambda>x. if f x = k then y else x) xs))" by simp
  have sub: "set (map f (map (\<lambda>x. if f x = k then y else x) xs)) \<subseteq> insert (f y) (set (map f xs))"
    by auto
  show ?case
  proof (cases "f x = k")
    case True
    have "f y \<notin> set (map f (map (\<lambda>x. if f x = k then y else x) xs))"
    proof
      assume "f y \<in> set (map f (map (\<lambda>x. if f x = k then y else x) xs))"
      then obtain z where z: "z \<in> set xs" "f (if f z = k then y else z) = f y" by auto
      from Cons.prems(1) have "f x \<notin> f ` set xs" by simp
      with z(1) have "f z \<noteq> f x" by (metis imageI)
      with True have "f z \<noteq> k" by simp
      with z(2) have "f z = f y" by simp
      moreover from Cons.prems(2) have "f y \<notin> f ` set xs" by simp
      ultimately show False using z(1) by (metis imageI)
    qed
    with IH True show ?thesis by simp
  next
    case False
    have "f x \<notin> set (map f (map (\<lambda>x. if f x = k then y else x) xs))"
    proof
      assume "f x \<in> set (map f (map (\<lambda>x. if f x = k then y else x) xs))"
      with sub have "f x = f y \<or> f x \<in> set (map f xs)" by auto
      moreover from Cons.prems(2) have "f y \<noteq> f x" by simp
      moreover from Cons.prems(1) have "f x \<notin> set (map f xs)" by simp
      ultimately show False by metis
    qed
    with IH False show ?thesis by simp
  qed
qed

lemma distinct_map_replace:
  assumes "distinct (map f xs)" "f y = k \<or> f y \<notin> set (map f xs)"
  shows "distinct (map f (map (\<lambda>x. if f x = k then y else x) xs))"
proof (cases "f y = k")
  case True
  with assms(1) show ?thesis by (simp only: map_replace_same_key)
next
  case False
  with assms show ?thesis by (intro distinct_map_replace_fresh) simp_all
qed

lemma remove_at_length: "i < length xs \<Longrightarrow> length (remove_at i xs) = length xs - 1"
  by (simp add: remove_at_def)

lemma remove_at_nth_before: "j < i \<Longrightarrow> i < length xs \<Longrightarrow> remove_at i xs ! j = xs ! j"
  by (simp add: remove_at_def nth_append)

lemma remove_at_nth_after:
  "i \<le> j \<Longrightarrow> Suc j < length xs \<Longrightarrow> remove_at i xs ! j = xs ! Suc j"
  by (simp add: remove_at_def nth_append min_def)

lemma insert_at_nth: "i \<le> length xs \<Longrightarrow> insert_at i x xs ! i = x"
  by (simp add: insert_at_def nth_append)

lemma remove_at_insert_at: "i \<le> length xs \<Longrightarrow> remove_at i (insert_at i x xs) = xs"
  by (simp add: insert_at_def remove_at_def)

lemma insert_at_length: "length (insert_at i x xs) = Suc (length xs)"
  by (simp add: insert_at_def)

lemma toItag_obj_toReactTag_obj: "toItag_obj (toReactTag_obj t) = t"
  by (simp add: toItag_obj_def toReactTag_obj_def)

lemma toITags_toReactTags: "toITags (toReactTags v) = elems v"
  by (cases v) (simp_all add: toITags_def toReactTags_def comp_def toItag_obj_toReactTag_obj)

lemma addHtml_toReactTag_obj: "addHtml (toReactTag_obj t) = toReactTag_obj t"
  by (simp add: addHtml_def toReactTag_obj_def)

lemma tag_id_toReactTag_obj: "tag_id (toReactTag_obj t) = name t"
  by (simp add: toReactTag_obj_def)

lemma list_ex_names: "list_ex (\<lambda>t. tag_id t = n) (tags s) = (n \<in> set (names s))"
  by (auto simp: list_ex_iff names_def)

lemma handleEditedTag_declined:
  assumes "selectedTag s = Some sel" "name newTag \<noteq> tag_id sel" "name newTag \<in> set (names s)"
  shows "handleEditedTag s (Some newTag) = Inr (s, [])"
  using assms
  by (simp add: handleEditedTag_def toReactTag_def tag_id_toReactTag_obj list_ex_names)

lemma handleEditedTag_applied:
  assumes "selectedTag s = Some sel" "name newTag = tag_id sel \<or> name newTag \<notin> set (names s)"
  shows "handleEditedTag s (Some newTag) =
           Inr (s\<lparr>tags := map (\<lambda>t. if tag_id t = tag_id sel then toReactTag_obj newTag else t) (tags s),
                  showModal := False\<rparr>,
                [onChange (toITags (map (\<lambda>t. if tag_id t = tag_id sel then toReactTag_obj newTag else t)
                                      (tags s)))])"
  using assms
  by (auto simp add: handleEditedTag_def toReactTag_def tag_id_toReactTag_obj list_ex_names
      addHtml_toReactTag_obj Let_def)

lemma handleAddition_tags:
  "tags (fst (handleAddition TagColors s reactTag)) =
     tags s @ [\<lparr>tag_id = tag_id reactTag,
                tag_text = ReactTagHtml (tag_id reactTag) (array_get TagColors (currentTagColorIndex s)),
                tag_color = array_get TagColors (currentTagColorIndex s)\<rparr>]"
  by (simp add: handleAddition_def Let_def addHtml_def)

lemma handleAddition_cursor:
  "currentTagColorIndex (fst (handleAddition TagColors s reactTag)) =
     next_index (currentTagColorIndex s) (length TagColors)"
  by (simp add: handleAddition_def Let_def)

lemma handleAddition_callbacks:
  "snd (handleAddition TagColors s reactTag) =
     [onChange (toITags (tags (fst (handleAddition TagColors s reactTag))))]"
  by (simp add: handleAddition_def Let_def)

lemma array_get_in_range: "c < length xs \<Longrightarrow> array_get xs (Some c) = Some (xs ! c)"
  by (simp add: array_get_def)

lemma next_index_in_range: "0 < n \<Longrightarrow> next_index (Some c) n = Some ((c + 1) mod n)"
  by (simp add: next_index_def)

lemma add_all_prefix:
  "\<exists>ys. tags (add_all TagColors s rs) = tags s @ ys \<and> length ys = length rs"
proof (induction rs arbitrary: s)
  case Nil
  then show ?case by simp
next
  case (Cons r rs)
  obtain ys where ys: "tags (add_all TagColors (fst (handleAddition TagColors s r)) rs) =
      tags (fst (handleAddition TagColors s r)) @ ys" "length ys = length rs"
    using Cons.IH by blast
  then show ?case by (simp add: handleAddition_tags)
qed

lemma add_all_cursor:
  assumes "0 < length TagColors"
  shows "currentTagColorIndex s = Some c \<Longrightarrow> c < length TagColors \<Longrightarrow>
         currentTagColorIndex (add_all TagColors s rs) =
           Some ((c + length rs) mod length TagColors)"
proof (induction rs arbitrary: s c)
  case Nil
  then show ?case by simp
next
  case (Cons r rs)
  have "currentTagColorIndex (fst (handleAddition TagColors s r)) =
          Some ((c + 1) mod length TagColors)"
    using Cons.prems assms by (simp add: handleAddition_cursor next_index_in_range)
  moreover have "(c + 1) mod length TagColors < length TagColors"
    using assms by simp
  ultimately have "currentTagColorIndex (add_all TagColors (fst (handleAddition TagColors s r)) rs) =
          Some (((c + 1) mod length TagColors + length rs) mod length TagColors)"
    by (rule Cons.IH)
  then show ?case by (simp add: mod_add_left_eq)
qed

lemma add_all_nth:
  assumes "0 < length TagColors"
  shows "currentTagColorIndex s = Some c \<Longrightarrow> c < length TagColors \<Longrightarrow> i < length rs \<Longrightarrow>
         tags (add_all TagColors s rs) ! (length (tags s) + i) =
           \<lparr>tag_id = tag_id (rs ! i),
            tag_text = ReactTagHtml (tag_id (rs ! i))
                         (Some (TagColors ! ((c + i) mod length TagColors))),
            tag_color = Some (TagColors ! ((c + i) mod length TagColors))\<rparr>"
proof (induction rs arbitrary: s c i)
  case Nil
  then show ?case by simp
next
  case (Cons r rs)
  let ?s1 = "fst (handleAddition TagColors s r)"
  let ?n = "length TagColors"
  have t1: "tags ?s1 = tags s @ [\<lparr>tag_id = tag_id r,
                tag_text = ReactTagHtml (tag_id r) (Some (TagColors ! c)),
                tag_color = Some (TagColors ! c)\<rparr>]"
    using Cons.prems(1,2) by (simp add: handleAddition_tags array_get_in_range)
  have c1: "currentTagColorIndex ?s1 = Some ((c + 1) mod ?n)"
    using Cons.prems(1) assms by (simp add: handleAddition_cursor next_index_in_range)
  have lt1: "(c + 1) mod ?n < ?n" using assms by simp
  show ?case
  proof (cases i)
    case 0
    obtain ys where ys: "tags (add_all TagColors ?s1 rs) = tags ?s1 @ ys"
      using add_all_prefix [of TagColors ?s1 rs] by blast
    have "tags (add_all TagColors ?s1 rs) ! length (tags s) =
            \<lparr>tag_id = tag_id r,
             tag_text = ReactTagHtml (tag_id r) (Some (TagColors ! c)),
             tag_color = Some (TagColors ! c)\<rparr>"
      by (simp add: ys t1 nth_append)
    with 0 Cons.prems(2) show ?thesis by simp
  next
    case (Suc j)
    with Cons.prems(3) have j: "j < length rs" by simp
    have "tags (add_all TagColors ?s1 rs) ! (length (tags ?s1) + j) =
            \<lparr>tag_id = tag_id (rs ! j),
             tag_text = ReactTagHtml (tag_id (rs ! j))
                          (Some (TagColors ! (((c + 1) mod ?n + j) mod ?n))),
             tag_color = Some (TagColors ! (((c + 1) mod ?n + j) mod ?n))\<rparr>"
      using c1 lt1 j by (rule Cons.IH)
    moreover have "((c + 1) mod ?n + j) mod ?n = (c + Suc j) mod ?n"
      by (simp add: mod_add_left_eq)
    moreover have "length (tags ?s1) + j = length (tags s) + Suc j"
      by (simp add: t1)
    ultimately show ?thesis using Suc by simp
  qed
qed

lemma constructor_cursor: "currentTagColorIndex (constructor p r) = Some r"
  by (simp add: constructor_def)

lemma step_Edit_declined:
  assumes "declined (state this) (Edit newTag)"
  shows "step TagColors this (Edit newTag) = (this, [])"
proof (cases newTag)
  case None
  then show ?thesis by (simp add: handleEditedTag_def toReactTag_def attempt_def)
next
  case (Some nt)
  show ?thesis
  proof (cases "selectedTag (state this)")
    case None
    then show ?thesis
      by (simp add: Some handleEditedTag_def toReactTag_def attempt_def)
  next
    case (Some sel)
    with assms \<open>newTag = Some nt\<close>
    have "name nt \<noteq> tag_id sel" "name nt \<in> set (names (state this))" by simp_all
    with Some have "handleEditedTag (state this) (Some nt) = Inr (state this, [])"
      by (rule handleEditedTag_declined)
    then show ?thesis by (simp add: \<open>newTag = Some nt\<close> attempt_def commit_def)
  qed
qed

lemma step_Edit_applied:
  assumes "\<not> declined (state this) (Edit newTag)"
  shows "snd (step TagColors this (Edit newTag)) =
           [onChange (toITags (tags (state (fst (step TagColors this (Edit newTag))))))]"
proof -
  from assms obtain nt where nt: "newTag = Some nt" by (cases newTag) simp_all
  from assms nt obtain sel where sel: "selectedTag (state this) = Some sel"
    by (cases "selectedTag (state this)") simp_all
  from assms nt sel
  have "name nt = tag_id sel \<or> name nt \<notin> set (names (state this))" by auto
  with sel show ?thesis
    by (simp add: nt handleEditedTag_applied attempt_def commit_def)
qed

lemma step_notifies:
  assumes "user_operation op"
  shows "snd (step TagColors this op) =
           (if declined (state this) op then []
            else [onChange (toITags (tags (state (fst (step TagColors this op)))))])"
proof (cases op)
  case (Add r)
  then show ?thesis by (simp add: commit_def handleAddition_callbacks)
next
  case (Edit newTag)
  then show ?thesis
    by (simp add: step_Edit_declined step_Edit_applied del: step.simps declined.simps)
next
  case (Delete i event)
  then show ?thesis by (simp add: commit_def handleDelete_def Let_def)
next
  case (Drag tag a b)
  then show ?thesis by (simp add: commit_def handleDrag_def Let_def)
qed (use assms in simp_all)

lemma step_declined:
  assumes "user_operation op" "declined (state this) op"
  shows "fst (step TagColors this op) = this"
proof (cases op)
  case (Edit newTag)
  with assms(2) show ?thesis by (simp add: step_Edit_declined del: step.simps declined.simps)
next
  case (Delete i event)
  with assms(2) show ?thesis by (simp add: commit_def handleDelete_def)
qed (use assms in simp_all)

lemma step_keeps_names_distinct:
  assumes "distinct (names (state this))" "admissible (state this) op"
  shows "distinct (names (state (fst (step TagColors this op))))"
proof (cases op)
  case (Add r)
  with assms show ?thesis
    by (simp add: commit_def names_def handleAddition_tags)
next
  case (Edit newTag)
  show ?thesis
  proof (cases "declined (state this) (Edit newTag)")
    case True
    then show ?thesis using assms(1) Edit
      by (simp add: step_Edit_declined del: step.simps declined.simps)
  next
    case False
    then obtain nt where nt: "newTag = Some nt" by (cases newTag) simp_all
    from False nt obtain sel where sel: "selectedTag (state this) = Some sel"
      by (cases "selectedTag (state this)") simp_all
    from False nt sel
    have ok: "name nt = tag_id sel \<or> name nt \<notin> set (names (state this))" by auto
    then have "tag_id (toReactTag_obj nt) = tag_id sel
               \<or> tag_id (toReactTag_obj nt) \<notin> set (map tag_id (tags (state this)))"
      by (simp add: tag_id_toReactTag_obj names_def)
    with assms(1) have "distinct (map tag_id (map (\<lambda>t. if tag_id t = tag_id sel
                           then toReactTag_obj nt else t) (tags (state this))))"
      unfolding names_def by (rule distinct_map_replace)
    then show ?thesis
      by (simp add: Edit nt handleEditedTag_applied [OF sel ok] attempt_def commit_def names_def)
  qed
next
  case (Delete i event)
  have "distinct (map tag_id (filter_index i (tags (state this))))"
    using assms(1) unfolding names_def by (rule distinct_map_filter_index)
  with assms(1) show ?thesis
    by (simp add: Delete commit_def handleDelete_def Let_def names_def)
next
  case (Drag tag a b)
  have "distinct (map tag_id (splice a 1 [] (tags (state this))))"
    using assms(1) unfolding names_def by (rule distinct_map_splice_remove)
  moreover have "tag_id tag \<notin> set (map tag_id (splice a 1 [] (tags (state this))))"
    using assms(2) Drag by simp
  ultimately have "distinct (map tag_id (splice b 0 [tag] (splice a 1 [] (tags (state this)))))"
    by (rule distinct_map_splice_insert)
  then show ?thesis by (simp add: Drag commit_def handleDrag_def Let_def names_def)
next
  case (Refresh newProps)
  have "map tag_id (toReactTags v) = map name (elems v)" for v
    by (cases v) (simp_all add: toReactTags_def tag_id_toReactTag_obj)
  with assms show ?thesis
    by (simp add: Refresh commit_def componentDidUpdate_def names_def)
next
  case (Click event)
  have "tags (state (fst (step TagColors this (Click event)))) = tags (state this)"
    by (simp add: attempt_def commit_def handleTagClick_def Let_def split: sum.splits)
  with assms(1) show ?thesis by (simp add: Click names_def del: step.simps)
next
  case CloseModal
  with assms(1) show ?thesis by (simp add: commit_def handleCloseModal_def names_def)
qed

lemmas scenario_defs = palette_def tag_A_def tag_B_def typed_def by_click_def by_key_def
  holding_def mounted_def

section \<open>Properties of the component\<close>

subsection \<open>Names stay unique under admissible events\<close>

text \<open>
  C1, as stated, fails. No handler but the one for edits compares names: from a list
  without repeated names, adding a tag whose name is present, dragging with a tag
  argument that repeats a name that stays, and a refresh with a list that has a name
  twice each commit a list with two tags of one name.
\<close>

theorem unique_names_counterexample:
  "distinct (names (state (mounted (holding [tag_A] 1 None False))))
   \<and> names (state (last (trace palette (mounted (holding [tag_A] 1 None False))
                           [Add (typed ''A'')]))) = [''A'', ''A'']
   \<and> distinct (names (state (mounted (holding [tag_A, tag_B] 2 None False))))
   \<and> names (state (last (trace palette (mounted (holding [tag_A, tag_B] 2 None False))
                           [Drag tag_A 1 0]))) = [''A'', ''A'']
   \<and> names (state (last (trace palette (mounted (holding [tag_A] 1 None False))
                           [Refresh \<lparr>props_tags = Array 1 [\<lparr>name = ''B'', color = Some ''red''\<rparr>,
                                                            \<lparr>name = ''B'', color = Some ''blue''\<rparr>],
                                     has_onTagClick = False, has_onTagShiftClick = False\<rparr>]))) =
       [''B'', ''B'']"
  by (simp add: scenario_defs names_def commit_def handleAddition_def handleDrag_def splice_def
      Let_def addHtml_def array_get_def next_index_def componentDidUpdate_def toReactTags_def
      toReactTag_obj_def)

text \<open>
  C1 (uniqueness invariant, amended). Start from a list of tags with pairwise distinct
  names and run any sequence of events (additions, edits, deletions, drags, refreshes,
  clicks, closing the modal) in which every added name is new, every dragged tag has a
  name that does not occur among the tags left after the removal at the old position,
  and every refreshed list has pairwise distinct names. Then after each event no two
  tags of the list share a name. Edits and deletions need no side condition.
\<close>

theorem unique_names_preserved:
  assumes "distinct (names (state this))" "admissible_seq TagColors this ops"
  shows "\<forall>this' \<in> set (trace TagColors this ops). distinct (names (state this'))"
  using assms
proof (induction ops arbitrary: this)
  case Nil
  then show ?case by simp
next
  case (Cons op ops)
  from Cons.prems have a: "admissible (state this) op"
    and r: "admissible_seq TagColors (fst (step TagColors this op)) ops" by simp_all
  have d: "distinct (names (state (fst (step TagColors this op))))"
    using Cons.prems(1) a by (rule step_keeps_names_distinct)
  from d r have "\<forall>this' \<in> set (trace TagColors (fst (step TagColors this op)) ops).
                   distinct (names (state this'))"
    by (rule Cons.IH)
  with d show ?case by simp
qed

text \<open>
  The invariant on a run over the scenario: add B, pick A for editing, rename A to C,
  delete the first tag, drag B in place, refresh with the list of A and B.
\<close>

theorem unique_names_preserved_witness:
  "distinct (names (state (mounted (holding [tag_A] 1 None False))))
   \<and> admissible_seq palette (mounted (holding [tag_A] 1 None False))
         [Add (typed ''B''),
          Click \<lparr>currentTarget_innerText = ''A'', target_innerText = [], ctrlKey = True, shiftKey = False\<rparr>,
          Edit (Some \<lparr>name = ''C'', color = Some ''red''\<rparr>),
          Delete 0 by_click,
          Drag tag_B 0 0,
          Refresh \<lparr>props_tags = Array 1 [\<lparr>name = ''A'', color = Some ''red''\<rparr>,
                                           \<lparr>name = ''B'', color = Some ''blue''\<rparr>],
                    has_onTagClick = False, has_onTagShiftClick = False\<rparr>]
   \<and> distinct (names (state (last (trace palette (mounted (holding [tag_A] 1 None False))
         [Add (typed ''B''),
          Click \<lparr>currentTarget_innerText = ''A'', target_innerText = [], ctrlKey = True, shiftKey = False\<rparr>,
          Edit (Some \<lparr>name = ''C'', color = Some ''red''\<rparr>),
          Delete 0 by_click,
          Drag tag_B 0 0,
          Refresh \<lparr>props_tags = Array 1 [\<lparr>name = ''A'', color = Some ''red''\<rparr>,
                                           \<lparr>name = ''B'', color = Some ''blue''\<rparr>],
                    has_onTagClick = False, has_onTagShiftClick = False\<rparr>]))))"
proof -
  let ?c = "mounted (holding [tag_A] 1 None False)"
  let ?ops = "[Add (typed ''B''),
          Click \<lparr>currentTarget_innerText = ''A'', target_innerText = [], ctrlKey = True, shiftKey = False\<rparr>,
          Edit (Some \<lparr>name = ''C'', color = Some ''red''\<rparr>),
          Delete 0 by_click,
          Drag tag_B 0 0,
          Refresh \<lparr>props_tags = Array 1 [\<lparr>name = ''A'', color = Some ''red''\<rparr>,
                                           \<lparr>name = ''B'', color = Some ''blue''\<rparr>],
                    has_onTagClick = False, has_onTagShiftClick = False\<rparr>]"
  have h1: "distinct (names (state ?c))"
    by (simp add: scenario_defs names_def)
  have h2: "admissible_seq palette ?c ?ops"
    by (simp add: scenario_defs names_def commit_def attempt_def handleAddition_def
        handleTagClick_def innerText_def getTag_def handleEditedTag_def toReactTag_def
        toReactTag_obj_def handleDelete_def filter_index_def enumerate_eq_zip
        KeyCodes_backspace_def handleDrag_def splice_def Let_def addHtml_def array_get_def
        next_index_def componentDidUpdate_def toReactTags_def)
  have "last (trace palette ?c ?ops) \<in> set (trace palette ?c ?ops)"
    by (rule last_in_set) simp
  with unique_names_preserved [OF h1 h2]
  have "distinct (names (state (last (trace palette ?c ?ops))))" by blast
  with h1 h2 show ?thesis by blast
qed

subsection \<open>Adding a name that is present\<close>

text \<open>
  C2, as stated, fails. \<open>handleAddition\<close> has no test for a name that is present:
  with the list \<open>[{A, red}]\<close> and the cursor at 1, adding A again commits
  \<open>[{A, red}, {A, blue}]\<close>, moves the cursor to 2 and calls \<open>onChange\<close>.
\<close>

theorem handleAddition_duplicate_counterexample:
  "tag_id (typed ''A'') \<in> set (names (holding [tag_A] 1 None False))
   \<and> handleAddition palette (holding [tag_A] 1 None False) (typed ''A'') =
       (holding [tag_A, \<lparr>tag_id = ''A'', tag_text = ReactTagHtml ''A'' (Some ''blue''),
                         tag_color = Some ''blue''\<rparr>] 2 None False,
        [onChange [\<lparr>name = ''A'', color = Some ''red''\<rparr>, \<lparr>name = ''A'', color = Some ''blue''\<rparr>]])"
  by (simp add: scenario_defs names_def handleAddition_def Let_def
      addHtml_def array_get_def next_index_def toITags_def toItag_obj_def)

text \<open>
  C2 (duplicate Add, amended). For every list and every added tag whose name is already
  in the list, with the cursor inside the palette, \<open>handleAddition\<close> appends a
  second tag of that name, coloured with the palette entry at the cursor, so that the
  names are no longer distinct; it advances the cursor by one modulo the size of the
  palette and calls \<open>onChange\<close> once with the extended list. Keeping duplicates out
  is left to the input widget in front of the handler.
\<close>

theorem handleAddition_duplicate_appended:
  assumes "tag_id reactTag \<in> set (names s)"
      and "currentTagColorIndex s = Some c" "c < length TagColors"
  shows "tags (fst (handleAddition TagColors s reactTag)) =
           tags s @ [\<lparr>tag_id = tag_id reactTag,
                      tag_text = ReactTagHtml (tag_id reactTag) (Some (TagColors ! c)),
                      tag_color = Some (TagColors ! c)\<rparr>]
         \<and> \<not> distinct (names (fst (handleAddition TagColors s reactTag)))
         \<and> currentTagColorIndex (fst (handleAddition TagColors s reactTag)) =
             Some ((c + 1) mod length TagColors)
         \<and> snd (handleAddition TagColors s reactTag) =
             [onChange (toITags (tags s) @ [\<lparr>name = tag_id reactTag, color = Some (TagColors ! c)\<rparr>])]"
proof -
  have pos: "0 < length TagColors" using assms(3) by (cases TagColors) simp_all
  have t: "tags (fst (handleAddition TagColors s reactTag)) =
           tags s @ [\<lparr>tag_id = tag_id reactTag,
                      tag_text = ReactTagHtml (tag_id reactTag) (Some (TagColors ! c)),
                      tag_color = Some (TagColors ! c)\<rparr>]"
    using assms(2,3) by (simp add: handleAddition_tags array_get_in_range)
  have "names (fst (handleAddition TagColors s reactTag)) = names s @ [tag_id reactTag]"
    by (simp add: names_def t)
  with assms(1) have d: "\<not> distinct (names (fst (handleAddition TagColors s reactTag)))"
    by simp
  have c: "currentTagColorIndex (fst (handleAddition TagColors s reactTag)) =
             Some ((c + 1) mod length TagColors)"
    using assms(2) pos by (simp add: handleAddition_cursor next_index_in_range)
  have n: "snd (handleAddition TagColors s reactTag) =
             [onChange (toITags (tags s) @ [\<lparr>name = tag_id reactTag, color = Some (TagColors ! c)\<rparr>])]"
    by (simp add: handleAddition_callbacks t toITags_def toItag_obj_def)
  from t d c n show ?thesis by simp
qed

text \<open>
  The amended statement at the list \<open>[{A, red}]\<close> with the cursor on the last
  palette entry: the cursor wraps to 0.
\<close>

theorem handleAddition_duplicate_appended_witness:
  "tag_id (typed ''A'') \<in> set (names (holding [tag_A] 2 None False))
   \<and> currentTagColorIndex (holding [tag_A] 2 None False) = Some 2
   \<and> 2 < length palette
   \<and> tags (fst (handleAddition palette (holding [tag_A] 2 None False) (typed ''A''))) =
       [tag_A, \<lparr>tag_id = ''A'', tag_text = ReactTagHtml ''A'' (Some ''green''),
                tag_color = Some ''green''\<rparr>]
   \<and> currentTagColorIndex (fst (handleAddition palette (holding [tag_A] 2 None False) (typed ''A''))) =
       Some 0
   \<and> snd (handleAddition palette (holding [tag_A] 2 None False) (typed ''A'')) =
       [onChange [\<lparr>name = ''A'', color = Some ''red''\<rparr>, \<lparr>name = ''A'', color = Some ''green''\<rparr>]]"
proof -
  let ?s = "holding [tag_A] 2 None False"
  have h1: "tag_id (typed ''A'') \<in> set (names ?s)"
    by (simp add: scenario_defs names_def)
  have h2: "currentTagColorIndex ?s = Some 2" by (simp add: holding_def)
  have h3: "2 < length palette" by (simp add: palette_def)
  show ?thesis
    using handleAddition_duplicate_appended [OF h1 h2 h3] h1 h2 h3
    by (simp add: scenario_defs toITags_def toItag_obj_def)
qed

subsection \<open>Notifications\<close>

text \<open>
  C3, as stated, fails. A deletion at a position outside the list leaves the list as
  it is and still calls \<open>onChange\<close>; so does a drag of the only tag onto its own
  position.
\<close>

theorem notification_counterexample:
  "handleDelete (holding [tag_A] 1 None False) 5 by_click =
     (holding [tag_A] 1 None False, [onChange [\<lparr>name = ''A'', color = Some ''red''\<rparr>]])
   \<and> handleDrag (holding [tag_B] 2 None False) tag_B 0 0 =
     (holding [tag_B] 2 None False, [onChange [\<lparr>name = ''B'', color = Some ''blue''\<rparr>]])"
  by (simp add: scenario_defs handleDelete_def handleDrag_def splice_def filter_index_def Let_def
      toITags_def toItag_obj_def KeyCodes_backspace_def enumerate_eq_zip)

text \<open>
  C3 (one notification per operation, amended). For every addition, edit, deletion and
  drag: when a guard of the handler declines it (deletion by backspace, an edit to a
  name that another tag has, an edit that raises) the component is unchanged and no
  callback runs; otherwise \<open>onChange\<close> is called exactly once, whether or not the
  list differs from the one before, and its argument is the committed list projected
  to name and colour. In particular every operation that changes the list notifies
  once.
\<close>

theorem notification_per_operation:
  assumes "user_operation op"
  shows "(declined (state this) op \<longrightarrow> step TagColors this op = (this, []))
         \<and> (\<not> declined (state this) op \<longrightarrow>
              snd (step TagColors this op) =
                [onChange (toITags (tags (state (fst (step TagColors this op)))))])
         \<and> (tags (state (fst (step TagColors this op))) \<noteq> tags (state this) \<longrightarrow>
              snd (step TagColors this op) =
                [onChange (toITags (tags (state (fst (step TagColors this op)))))])"
proof -
  have n: "snd (step TagColors this op) =
           (if declined (state this) op then []
            else [onChange (toITags (tags (state (fst (step TagColors this op)))))])"
    using assms by (rule step_notifies)
  have d: "declined (state this) op \<Longrightarrow> fst (step TagColors this op) = this"
    using assms by (rule step_declined)
  have 1: "declined (state this) op \<longrightarrow> step TagColors this op = (this, [])"
    using n d by (simp add: prod_eq_iff)
  have 2: "\<not> declined (state this) op \<longrightarrow>
              snd (step TagColors this op) =
                [onChange (toITags (tags (state (fst (step TagColors this op)))))]"
    using n by simp
  have 3: "tags (state (fst (step TagColors this op))) \<noteq> tags (state this) \<longrightarrow>
              snd (step TagColors this op) =
                [onChange (toITags (tags (state (fst (step TagColors this op)))))]"
    using d 2 by (cases "declined (state this) op") auto
  from 1 2 3 show ?thesis by blast
qed

text \<open>
  The three cases on deletions: by backspace, at position 0, and at position 7 of a
  list of two tags.
\<close>

theorem notification_per_operation_witness:
  "user_operation (Delete 0 by_click)
   \<and> step palette (mounted (holding [tag_A, tag_B] 2 None False)) (Delete 0 (by_key 8)) =
       (mounted (holding [tag_A, tag_B] 2 None False), [])
   \<and> snd (step palette (mounted (holding [tag_A, tag_B] 2 None False)) (Delete 0 by_click)) =
       [onChange [\<lparr>name = ''B'', color = Some ''blue''\<rparr>]]
   \<and> snd (step palette (mounted (holding [tag_A, tag_B] 2 None False)) (Delete 7 by_click)) =
       [onChange [\<lparr>name = ''A'', color = Some ''red''\<rparr>, \<lparr>name = ''B'', color = Some ''blue''\<rparr>]]"
proof -
  let ?c = "mounted (holding [tag_A, tag_B] 2 None False)"
  have u: "user_operation (Delete 0 (by_key 8))" "user_operation (Delete 0 by_click)"
    "user_operation (Delete 7 by_click)" by simp_all
  have d: "declined (state ?c) (Delete 0 (by_key 8))"
    "\<not> declined (state ?c) (Delete 0 by_click)" "\<not> declined (state ?c) (Delete 7 by_click)"
    by (simp_all add: by_key_def by_click_def KeyCodes_backspace_def)
  have t: "tags (state (fst (step palette ?c (Delete 0 by_click)))) = [tag_B]"
    "tags (state (fst (step palette ?c (Delete 7 by_click)))) = [tag_A, tag_B]"
    by (simp_all add: scenario_defs commit_def handleDelete_def filter_index_def
        enumerate_eq_zip KeyCodes_backspace_def Let_def)
  from notification_per_operation [OF u(1), of ?c palette] d(1)
  have 1: "step palette ?c (Delete 0 (by_key 8)) = (?c, [])" by blast
  from notification_per_operation [OF u(2), of ?c palette] d(2)
  have 2: "snd (step palette ?c (Delete 0 by_click)) =
             [onChange (toITags (tags (state (fst (step palette ?c (Delete 0 by_click))))))]"
    by blast
  from notification_per_operation [OF u(3), of ?c palette] d(3)
  have 3: "snd (step palette ?c (Delete 7 by_click)) =
             [onChange (toITags (tags (state (fst (step palette ?c (Delete 7 by_click))))))]"
    by blast
  have p: "toITags [tag_B] = [\<lparr>name = ''B'', color = Some ''blue''\<rparr>]"
    "toITags [tag_A, tag_B] = [\<lparr>name = ''A'', color = Some ''red''\<rparr>, \<lparr>name = ''B'', color = Some ''blue''\<rparr>]"
    by (simp_all add: toITags_def toItag_obj_def tag_A_def tag_B_def)
  from 2 have n2: "snd (step palette ?c (Delete 0 by_click)) =
             [onChange [\<lparr>name = ''B'', color = Some ''blue''\<rparr>]]"
    unfolding t(1) p(1) .
  from 3 have n3: "snd (step palette ?c (Delete 7 by_click)) =
             [onChange [\<lparr>name = ''A'', color = Some ''red''\<rparr>, \<lparr>name = ''B'', color = Some ''blue''\<rparr>]]"
    unfolding t(2) p(2) .
  from 1 n2 n3 u(2) show ?thesis by blast
qed

subsection \<open>Colour rotation\<close>

text \<open>
  C4 (colour rotation). Let the palette have \<open>P\<close> entries and the cursor be at
  \<open>c0 < P\<close>, as the constructor leaves it when \<open>randomIntInRange\<close> returns
  \<open>c0\<close>. After \<open>k\<close> additions in a row the cursor is \<open>(c0 + k) mod P\<close>, the
  tags present before are untouched, and the \<open>i\<close>-th added tag (\<open>i\<close> from 0 to
  \<open>k - 1\<close>) carries the name it came with and the palette colour at index
  \<open>(c0 + i) mod P\<close>.
\<close>

theorem color_rotation:
  assumes "c0 < length TagColors"
      and "currentTagColorIndex s = Some c0"
  shows "currentTagColorIndex (constructor p c0) = Some c0
         \<and> currentTagColorIndex (add_all TagColors s rs) =
           Some ((c0 + length rs) mod length TagColors)
         \<and> length (tags (add_all TagColors s rs)) = length (tags s) + length rs
         \<and> take (length (tags s)) (tags (add_all TagColors s rs)) = tags s
         \<and> (\<forall>i < length rs.
               tag_id (tags (add_all TagColors s rs) ! (length (tags s) + i)) = tag_id (rs ! i)
               \<and> tag_color (tags (add_all TagColors s rs) ! (length (tags s) + i)) =
                   Some (TagColors ! ((c0 + i) mod length TagColors)))"
proof -
  have pos: "0 < length TagColors" using assms(1) by (cases TagColors) simp_all
  have cur: "currentTagColorIndex s = Some c0"
    by (rule assms(2))
  obtain ys where ys: "tags (add_all TagColors s rs) = tags s @ ys" "length ys = length rs"
    using add_all_prefix [of TagColors s rs] by blast
  have "currentTagColorIndex (add_all TagColors s rs) =
          Some ((c0 + length rs) mod length TagColors)"
    using pos cur assms(1) by (rule add_all_cursor)
  moreover have "length (tags (add_all TagColors s rs)) = length (tags s) + length rs"
    by (simp add: ys)
  moreover have "take (length (tags s)) (tags (add_all TagColors s rs)) = tags s"
    by (simp add: ys)
  moreover have "\<forall>i < length rs.
       tag_id (tags (add_all TagColors s rs) ! (length (tags s) + i)) = tag_id (rs ! i)
       \<and> tag_color (tags (add_all TagColors s rs) ! (length (tags s) + i)) =
           Some (TagColors ! ((c0 + i) mod length TagColors))"
    using add_all_nth [OF pos cur assms(1)] by simp
  ultimately show ?thesis by (simp add: constructor_cursor)
qed

text \<open>
  Two additions from a fresh component whose cursor starts at 2 in a palette of three:
  green, then red, and the cursor ends at 1.
\<close>

theorem color_rotation_witness:
  "(2::nat) < length palette
   \<and> currentTagColorIndex (constructor
        \<lparr>props_tags = Null, has_onTagClick = False, has_onTagShiftClick = False\<rparr> 2) = Some 2
   \<and> currentTagColorIndex (add_all palette (constructor
        \<lparr>props_tags = Null, has_onTagClick = False, has_onTagShiftClick = False\<rparr> 2)
        [typed ''A'', typed ''B'']) = Some 1
   \<and> tag_color (tags (add_all palette (constructor
        \<lparr>props_tags = Null, has_onTagClick = False, has_onTagShiftClick = False\<rparr> 2)
        [typed ''A'', typed ''B'']) ! 0) = Some ''green''
   \<and> tag_color (tags (add_all palette (constructor
        \<lparr>props_tags = Null, has_onTagClick = False, has_onTagShiftClick = False\<rparr> 2)
        [typed ''A'', typed ''B'']) ! 1) = Some ''red''"
proof -
  let ?s = "constructor \<lparr>props_tags = Null, has_onTagClick = False, has_onTagShiftClick = False\<rparr> 2"
  let ?rs = "[typed ''A'', typed ''B'']"
  have h1: "(2::nat) < length palette" by (simp add: palette_def)
  have h2: "currentTagColorIndex ?s = Some 2" by (simp add: constructor_def)
  have l: "tags ?s = []" by (simp add: constructor_def toReactTags_def)
  from color_rotation [OF h1 h2, where rs = ?rs]
  have c: "currentTagColorIndex (add_all palette ?s ?rs) = Some 1"
    and n: "length (tags (add_all palette ?s ?rs)) = 2"
    and a: "tag_color (tags (add_all palette ?s ?rs) ! 0) = Some ''green''"
           "tag_color (tags (add_all palette ?s ?rs) ! 1) = Some ''red''"
    by (simp_all add: l palette_def)
  from h1 h2 c a show ?thesis by blast
qed

subsection \<open>An edit to a name that is taken\<close>

text \<open>
  C5 (rename rejection). When a tag is selected, the new name differs from the name of
  the selected tag and the new name occurs in the list, \<open>handleEditedTag\<close> returns
  the state as it was (list, cursor, selected tag and modal flag) and calls no
  callback.
\<close>

theorem handleEditedTag_rejects_duplicate:
  assumes "selectedTag s = Some sel" "name newTag \<noteq> tag_id sel" "name newTag \<in> set (names s)"
  shows "handleEditedTag s (Some newTag) = Inr (s, [])
         \<and> step TagColors \<lparr>props = p, state = s\<rparr> (Edit (Some newTag)) = (\<lparr>props = p, state = s\<rparr>, [])"
  using handleEditedTag_declined [OF assms]
  by (simp add: attempt_def commit_def)

text \<open>
  The scenario: A is selected and is to be renamed to B, which exists.
\<close>

theorem handleEditedTag_rejects_duplicate_witness:
  "selectedTag (holding [tag_A, tag_B] 2 (Some tag_A) True) = Some tag_A
   \<and> name \<lparr>name = ''B'', color = Some ''green''\<rparr> \<noteq> tag_id tag_A
   \<and> name \<lparr>name = ''B'', color = Some ''green''\<rparr> \<in> set (names (holding [tag_A, tag_B] 2 (Some tag_A) True))
   \<and> handleEditedTag (holding [tag_A, tag_B] 2 (Some tag_A) True)
        (Some \<lparr>name = ''B'', color = Some ''green''\<rparr>) =
       Inr (holding [tag_A, tag_B] 2 (Some tag_A) True, [])"
proof -
  let ?s = "holding [tag_A, tag_B] 2 (Some tag_A) True"
  let ?n = "\<lparr>name = ''B'', color = Some ''green''\<rparr>"
  have h1: "selectedTag ?s = Some tag_A" by (simp add: holding_def)
  have h2: "name ?n \<noteq> tag_id tag_A" by (simp add: tag_A_def)
  have h3: "name ?n \<in> set (names ?s)" by (simp add: names_def holding_def tag_A_def tag_B_def)
  from handleEditedTag_rejects_duplicate [OF h1 h2 h3] h1 h2 h3
  show ?thesis by blast
qed

subsection \<open>An edit that goes through\<close>

text \<open>
  C6 (rename success). When a tag is selected and the new name is the name of the
  selected tag or does not occur in the list, \<open>handleEditedTag\<close> replaces, at its
  position, every entry whose name is the selected name by the new tag data, clears
  the selection (\<open>showModal\<close> becomes false; the field \<open>selectedTag\<close> and the
  cursor are not written) and calls \<open>onChange\<close> once with the whole updated list.
\<close>

theorem handleEditedTag_success:
  assumes "selectedTag s = Some sel" "name newTag = tag_id sel \<or> name newTag \<notin> set (names s)"
  shows "\<exists>s'. handleEditedTag s (Some newTag) = Inr (s', [onChange (toITags (tags s'))])
           \<and> tags s' = map (\<lambda>t. if tag_id t = tag_id sel then toReactTag_obj newTag else t) (tags s)
           \<and> toITags (tags s') =
               map (\<lambda>t. if tag_id t = tag_id sel then newTag else toItag_obj t) (tags s)
           \<and> selection s' = None
           \<and> showModal s' = False
           \<and> selectedTag s' = selectedTag s
           \<and> currentTagColorIndex s' = currentTagColorIndex s"
proof -
  let ?s' = "s\<lparr>tags := map (\<lambda>t. if tag_id t = tag_id sel then toReactTag_obj newTag else t) (tags s),
                showModal := False\<rparr>"
  have "handleEditedTag s (Some newTag) = Inr (?s', [onChange (toITags (tags ?s'))])"
    using handleEditedTag_applied [OF assms] by simp
  moreover have "toITags (tags ?s') =
      map (\<lambda>t. if tag_id t = tag_id sel then newTag else toItag_obj t) (tags s)"
    by (simp add: toITags_def toItag_obj_toReactTag_obj comp_def if_distrib cong: if_cong)
  ultimately show ?thesis by (intro exI [of _ ?s']) (simp add: selection_def)
qed

text \<open>
  The scenario: A is selected, \<open>{A, red}\<close> becomes \<open>{A, yellow}\<close> in the first
  position, and nothing is selected afterwards.
\<close>

theorem handleEditedTag_success_witness:
  "selectedTag (holding [tag_A, tag_B] 2 (Some tag_A) True) = Some tag_A
   \<and> selection (holding [tag_A, tag_B] 2 (Some tag_A) True) = Some tag_A
   \<and> name \<lparr>name = ''A'', color = Some ''yellow''\<rparr> = tag_id tag_A
   \<and> handleEditedTag (holding [tag_A, tag_B] 2 (Some tag_A) True)
        (Some \<lparr>name = ''A'', color = Some ''yellow''\<rparr>) =
       Inr (holding [\<lparr>tag_id = ''A'', tag_text = ReactTagHtml ''A'' (Some ''yellow''),
                       tag_color = Some ''yellow''\<rparr>, tag_B] 2 (Some tag_A) False,
            [onChange [\<lparr>name = ''A'', color = Some ''yellow''\<rparr>, \<lparr>name = ''B'', color = Some ''blue''\<rparr>]])
   \<and> selection (holding [\<lparr>tag_id = ''A'', tag_text = ReactTagHtml ''A'' (Some ''yellow''),
                       tag_color = Some ''yellow''\<rparr>, tag_B] 2 (Some tag_A) False) = None"
proof -
  let ?s = "holding [tag_A, tag_B] 2 (Some tag_A) True"
  let ?n = "\<lparr>name = ''A'', color = Some ''yellow''\<rparr>"
  have h1: "selectedTag ?s = Some tag_A" by (simp add: holding_def)
  have h2: "name ?n = tag_id tag_A" by (simp add: tag_A_def)
  then have h2': "name ?n = tag_id tag_A \<or> name ?n \<notin> set (names ?s)" by (rule disjI1)
  from handleEditedTag_success [OF h1 h2']
  obtain s' where s': "handleEditedTag ?s (Some ?n) = Inr (s', [onChange (toITags (tags s'))])"
    "tags s' = map (\<lambda>t. if tag_id t = tag_id tag_A then toReactTag_obj ?n else t) (tags ?s)"
    "showModal s' = False" "selectedTag s' = selectedTag ?s"
    "currentTagColorIndex s' = currentTagColorIndex ?s" "selection s' = None"
    by blast
  have e: "s' = holding [\<lparr>tag_id = ''A'', tag_text = ReactTagHtml ''A'' (Some ''yellow''),
                       tag_color = Some ''yellow''\<rparr>, tag_B] 2 (Some tag_A) False"
    using s'(2-5) by (simp add: scenario_defs toReactTag_obj_def)
  have b: "selection ?s = Some tag_A" by (simp add: selection_def holding_def)
  from s'(6) e have a: "selection (holding [\<lparr>tag_id = ''A'', tag_text = ReactTagHtml ''A'' (Some ''yellow''),
                       tag_color = Some ''yellow''\<rparr>, tag_B] 2 (Some tag_A) False) = None"
    by simp
  from s'(1) e have r: "handleEditedTag ?s (Some ?n) =
       Inr (holding [\<lparr>tag_id = ''A'', tag_text = ReactTagHtml ''A'' (Some ''yellow''),
                       tag_color = Some ''yellow''\<rparr>, tag_B] 2 (Some tag_A) False,
            [onChange [\<lparr>name = ''A'', color = Some ''yellow''\<rparr>, \<lparr>name = ''B'', color = Some ''blue''\<rparr>]])"
    by (simp add: scenario_defs toITags_def toItag_obj_def)
  from h1 b h2 r a show ?thesis by blast
qed

subsection \<open>Deletion\<close>

text \<open>
  C7 (delete behaviour). A deletion triggered by the backspace key changes nothing,
  whatever the index. Any other deletion at an index inside the list removes exactly
  the element at that index: the list is one shorter, the elements before the index
  stay and the elements after it move one position to the left. At an index outside
  the list (negative, or at least the length) the list is unchanged, and no error is
  raised: \<open>handleDelete\<close> has no failing result.
\<close>

theorem handleDelete_behaviour:
  "(keyCode event = Some KeyCodes_backspace \<longrightarrow> handleDelete s i event = (s, []))
   \<and> (keyCode event \<noteq> Some KeyCodes_backspace \<and> 0 \<le> i \<and> i < int (length (tags s)) \<longrightarrow>
        tags (fst (handleDelete s i event)) = remove_at (nat i) (tags s)
        \<and> length (tags (fst (handleDelete s i event))) = length (tags s) - 1
        \<and> (\<forall>j. j < nat i \<longrightarrow> tags (fst (handleDelete s i event)) ! j = tags s ! j)
        \<and> (\<forall>j. nat i \<le> j \<and> Suc j < length (tags s) \<longrightarrow>
              tags (fst (handleDelete s i event)) ! j = tags s ! Suc j))
   \<and> (keyCode event \<noteq> Some KeyCodes_backspace \<and> (i < 0 \<or> int (length (tags s)) \<le> i) \<longrightarrow>
        tags (fst (handleDelete s i event)) = tags s)"
proof (intro conjI impI)
  assume "keyCode event = Some KeyCodes_backspace"
  then show "handleDelete s i event = (s, [])" by (simp add: handleDelete_def)
next
  assume a: "keyCode event \<noteq> Some KeyCodes_backspace \<and> 0 \<le> i \<and> i < int (length (tags s))"
  then have t: "tags (fst (handleDelete s i event)) = remove_at (nat i) (tags s)"
    by (simp add: handleDelete_def Let_def filter_index_in_range)
  from a have r: "nat i < length (tags s)" by linarith
  show "tags (fst (handleDelete s i event)) = remove_at (nat i) (tags s)" by (rule t)
  show "length (tags (fst (handleDelete s i event))) = length (tags s) - 1"
    using r by (simp add: t remove_at_length)
  show "\<forall>j. j < nat i \<longrightarrow> tags (fst (handleDelete s i event)) ! j = tags s ! j"
    using r by (simp add: t remove_at_nth_before)
  show "\<forall>j. nat i \<le> j \<and> Suc j < length (tags s) \<longrightarrow>
          tags (fst (handleDelete s i event)) ! j = tags s ! Suc j"
    by (simp add: t remove_at_nth_after)
next
  assume "keyCode event \<noteq> Some KeyCodes_backspace \<and> (i < 0 \<or> int (length (tags s)) \<le> i)"
  then show "tags (fst (handleDelete s i event)) = tags s"
    by (simp add: handleDelete_def Let_def filter_index_out_of_range)
qed

text \<open>
  Backspace, the first position, and the two sides out of range on a list of two.
\<close>

theorem handleDelete_behaviour_witness:
  "handleDelete (holding [tag_A, tag_B] 2 None False) 0 (by_key 8) =
     (holding [tag_A, tag_B] 2 None False, [])
   \<and> tags (fst (handleDelete (holding [tag_A, tag_B] 2 None False) 0 by_click)) = [tag_B]
   \<and> tags (fst (handleDelete (holding [tag_A, tag_B] 2 None False) 2 by_click)) = [tag_A, tag_B]
   \<and> tags (fst (handleDelete (holding [tag_A, tag_B] 2 None False) (- 1) by_click)) = [tag_A, tag_B]"
proof -
  let ?s = "holding [tag_A, tag_B] 2 None False"
  have k: "keyCode (by_key 8) = Some KeyCodes_backspace"
    "keyCode by_click \<noteq> Some KeyCodes_backspace"
    by (simp_all add: by_key_def by_click_def KeyCodes_backspace_def)
  have l: "tags ?s = [tag_A, tag_B]" by (simp add: holding_def)
  show ?thesis
    using handleDelete_behaviour [of "by_key 8" ?s 0]
      handleDelete_behaviour [of by_click ?s 0]
      handleDelete_behaviour [of by_click ?s 2]
      handleDelete_behaviour [of by_click ?s "- 1"]
    by (simp add: k l remove_at_def)
qed

subsection \<open>Reordering\<close>

text \<open>
  C8 (reorder semantics). With both positions inside the list, the list after
  \<open>handleDrag\<close> is the list with the element at the old position removed and the
  tag argument put in at the new position of the shortened list: the argument stands
  at the new position, and taking it out again gives the other elements in their
  former order.
\<close>

theorem handleDrag_reorder:
  assumes "0 \<le> currPos" "currPos < int (length (tags s))"
      and "0 \<le> newPos" "newPos < int (length (tags s))"
  shows "tags (fst (handleDrag s tag currPos newPos)) =
           insert_at (nat newPos) tag (remove_at (nat currPos) (tags s))
         \<and> tags (fst (handleDrag s tag currPos newPos)) ! nat newPos = tag
         \<and> remove_at (nat newPos) (tags (fst (handleDrag s tag currPos newPos))) =
             remove_at (nat currPos) (tags s)
         \<and> length (tags (fst (handleDrag s tag currPos newPos))) = length (tags s)"
proof -
  let ?short = "remove_at (nat currPos) (tags s)"
  have short: "splice currPos 1 [] (tags s) = ?short"
    using assms(1,2) by (rule splice_remove_in_range)
  have len: "length ?short = length (tags s) - 1"
    using assms(1,2) by (simp add: remove_at_length)
  then have le: "newPos \<le> int (length ?short)" using assms(4) by simp
  have "splice newPos 0 [tag] ?short = insert_at (nat newPos) tag ?short"
    using assms(3) le by (rule splice_insert_in_range)
  then have t: "tags (fst (handleDrag s tag currPos newPos)) = insert_at (nat newPos) tag ?short"
    by (simp add: handleDrag_def Let_def short)
  have le': "nat newPos \<le> length ?short" using le assms(3) by simp
  show ?thesis
    using le' len assms(1,2)
    by (simp add: t insert_at_nth remove_at_insert_at insert_at_length)
qed

text \<open>
  Dragging A from position 0 to position 1 in \<open>[A, B]\<close>.
\<close>

theorem handleDrag_reorder_witness:
  "(0::int) \<le> 0 \<and> (0::int) < int (length (tags (holding [tag_A, tag_B] 2 None False)))
   \<and> (0::int) \<le> 1 \<and> (1::int) < int (length (tags (holding [tag_A, tag_B] 2 None False)))
   \<and> tags (fst (handleDrag (holding [tag_A, tag_B] 2 None False) tag_A 0 1)) = [tag_B, tag_A]"
proof -
  let ?s = "holding [tag_A, tag_B] 2 None False"
  have l: "tags ?s = [tag_A, tag_B]" by (simp add: holding_def)
  have h1: "(0::int) \<le> 0" and h2: "(0::int) < int (length (tags ?s))"
    and h3: "(0::int) \<le> 1" and h4: "(1::int) < int (length (tags ?s))"
    by (simp_all add: l)
  show ?thesis
    using handleDrag_reorder [OF h1 h2 h3 h4, of tag_A] h2 h4
    by (simp add: l remove_at_def insert_at_def)
qed

subsection \<open>Refresh from the properties\<close>

text \<open>
  C9 (external refresh). When the array of the new properties is not identical to the
  previous one, \<open>componentDidUpdate\<close> rebuilds the list from it: projected back to
  name and colour the list is the given array, in order; the cursor is unchanged and no
  callback is called.
\<close>

theorem componentDidUpdate_refresh:
  assumes "strict_neq (props_tags prevProps) (props_tags newProps)"
  shows "componentDidUpdate prevProps newProps s =
           (s\<lparr>tags := toReactTags (props_tags newProps)\<rparr>, [])
         \<and> toITags (tags (fst (componentDidUpdate prevProps newProps s))) =
             elems (props_tags newProps)
         \<and> currentTagColorIndex (fst (componentDidUpdate prevProps newProps s)) =
             currentTagColorIndex s
         \<and> snd (componentDidUpdate prevProps newProps s) = []"
  using assms by (simp add: componentDidUpdate_def toITags_toReactTags)

text \<open>
  A refresh from the array \<open>[{A, red}]\<close> to a different array \<open>[{B, blue}, {A, red}]\<close>.
\<close>

theorem componentDidUpdate_refresh_witness:
  "strict_neq (Array 1 [\<lparr>name = ''A'', color = Some ''red''\<rparr>])
              (Array 2 [\<lparr>name = ''B'', color = Some ''blue''\<rparr>, \<lparr>name = ''A'', color = Some ''red''\<rparr>])
   \<and> componentDidUpdate
        \<lparr>props_tags = Array 1 [\<lparr>name = ''A'', color = Some ''red''\<rparr>],
         has_onTagClick = False, has_onTagShiftClick = False\<rparr>
        \<lparr>props_tags = Array 2 [\<lparr>name = ''B'', color = Some ''blue''\<rparr>, \<lparr>name = ''A'', color = Some ''red''\<rparr>],
         has_onTagClick = False, has_onTagShiftClick = False\<rparr>
        (holding [tag_A] 1 None False) =
       (holding [tag_B, tag_A] 1 None False, [])"
proof -
  let ?p = "\<lparr>props_tags = Array 1 [\<lparr>name = ''A'', color = Some ''red''\<rparr>],
         has_onTagClick = False, has_onTagShiftClick = False\<rparr>"
  let ?q = "\<lparr>props_tags = Array 2 [\<lparr>name = ''B'', color = Some ''blue''\<rparr>, \<lparr>name = ''A'', color = Some ''red''\<rparr>],
         has_onTagClick = False, has_onTagShiftClick = False\<rparr>"
  have h: "strict_neq (props_tags ?p) (props_tags ?q)" by simp
  show ?thesis
    using componentDidUpdate_refresh [OF h, of "holding [tag_A] 1 None False"] h
    by (simp add: scenario_defs toReactTags_def toReactTag_obj_def)
qed

subsection \<open>Lookup\<close>

text \<open>
  C10 (lookup contract). If a tag of the list has the given name, \<open>getTag\<close>
  returns a tag of the list with that name; if none has, it raises the error
  \<open>No tag by id: name\<close>, and \<open>handleTagClick\<close>, its caller, does not catch
  it: the same error is the result of the click.
\<close>

theorem getTag_contract:
  "((\<exists>t \<in> set (tags s). tag_id t = ident) \<longrightarrow>
      (\<exists>t. getTag s ident = Inr t \<and> t \<in> set (tags s) \<and> tag_id t = ident))
   \<and> ((\<forall>t \<in> set (tags s). tag_id t \<noteq> ident) \<longrightarrow>
        getTag s ident = Inl (Error (''No tag by id: '' @ ident))
        \<and> (innerText event = ident \<longrightarrow>
              handleTagClick p s event = Inl (Error (''No tag by id: '' @ ident))))"
proof (intro conjI impI)
  assume "\<exists>t \<in> set (tags s). tag_id t = ident"
  then obtain t where t: "find (\<lambda>tag. tag_id tag = ident) (tags s) = Some t"
    by (cases "find (\<lambda>tag. tag_id tag = ident) (tags s)") (auto simp: find_None_iff)
  then have "t \<in> set (tags s) \<and> tag_id t = ident"
    by (auto simp: find_Some_iff)
  with t show "\<exists>t. getTag s ident = Inr t \<and> t \<in> set (tags s) \<and> tag_id t = ident"
    by (simp add: getTag_def)
next
  assume a: "\<forall>t \<in> set (tags s). tag_id t \<noteq> ident"
  then have f: "find (\<lambda>tag. tag_id tag = ident) (tags s) = None"
    by (simp add: find_None_iff)
  then show g: "getTag s ident = Inl (Error (''No tag by id: '' @ ident))"
    by (simp add: getTag_def)
  assume "innerText event = ident"
  with g show "handleTagClick p s event = Inl (Error (''No tag by id: '' @ ident))"
    by (simp add: handleTagClick_def)
qed

text \<open>
  Looking up B and C in \<open>[A, B]\<close>, and a click on a text C.
\<close>

theorem getTag_contract_witness:
  "getTag (holding [tag_A, tag_B] 2 None False) ''B'' = Inr tag_B
   \<and> getTag (holding [tag_A, tag_B] 2 None False) ''C'' = Inl (Error ''No tag by id: C'')
   \<and> handleTagClick \<lparr>props_tags = Null, has_onTagClick = True, has_onTagShiftClick = True\<rparr>
        (holding [tag_A, tag_B] 2 None False)
        \<lparr>currentTarget_innerText = ''C'', target_innerText = ''B'', ctrlKey = False, shiftKey = False\<rparr> =
       Inl (Error ''No tag by id: C'')"
proof -
  let ?s = "holding [tag_A, tag_B] 2 None False"
  let ?e = "\<lparr>currentTarget_innerText = ''C'', target_innerText = ''B'', ctrlKey = False, shiftKey = False\<rparr>"
  let ?p = "\<lparr>props_tags = Null, has_onTagClick = True, has_onTagShiftClick = True\<rparr>"
  have l: "tags ?s = [tag_A, tag_B]" by (simp add: holding_def)
  have i: "innerText ?e = ''C''" by (simp add: innerText_def)
  have ids: "tag_id tag_A = ''A''" "tag_id tag_B = ''B''" by (simp_all add: tag_A_def tag_B_def)
  from getTag_contract [of ?s "''B''"]
  obtain t where t: "getTag ?s ''B'' = Inr t" "t \<in> set (tags ?s)" "tag_id t = ''B''"
    by (auto simp: l ids)
  then have "t = tag_B" by (auto simp: l ids)
  with t(1) have 1: "getTag ?s ''B'' = Inr tag_B" by simp
  from getTag_contract [of ?s "''C''" ?e ?p]
  have 2: "getTag ?s ''C'' = Inl (Error ''No tag by id: C'')
           \<and> handleTagClick ?p ?s ?e = Inl (Error ''No tag by id: C'')"
    by (simp add: l ids i)
  from 1 2 show ?thesis by blast
qed

end
